theory Spec2Isabelle
  imports Complex_Main "HOL-Library.Char_ord" "HOL-Library.List_Lexorder"
begin

section \<open>Limeplot: response tables and Python exceptions\<close>

text \<open>
  A response table is the list of rows read by \<^verbatim>\<open>csv.reader\<close>: row 0 is the header,
  every cell is a string. The exceptions the modelled code can raise are values of
  \<open>error\<close>; a function that may raise returns \<open>error + 'a\<close> with \<open>Inl\<close> for the raise.
\<close>

datatype error = IndexError | ValueError | KeyError | ZeroDivisionError | OverflowError

type_synonym row = "string list"
type_synonym table = "row list"

text \<open>\<^verbatim>\<open>xs[i]\<close> for a non-negative index: raises \<^verbatim>\<open>IndexError\<close> out of range.\<close>

definition getitem :: "'a list \<Rightarrow> nat \<Rightarrow> error + 'a" where
  "getitem xs i = (if i < length xs then Inr (xs ! i) else Inl IndexError)"

text \<open>\<^verbatim>\<open>xs.index(x)\<close>: position of the first occurrence, \<^verbatim>\<open>ValueError\<close> when absent.\<close>

fun index_of :: "'a list \<Rightarrow> 'a \<Rightarrow> error + nat" where
  "index_of [] x = Inl ValueError"
| "index_of (y # ys) x =
     (if y = x then Inr 0
      else (case index_of ys x of Inl e \<Rightarrow> Inl e | Inr i \<Rightarrow> Inr (Suc i)))"

section \<open>SeedGrouper: \<^verbatim>\<open>filter_rows_by_seed\<close>\<close>

text \<open>
  The inner loop \<^verbatim>\<open>for seed_set in seed_sets: if ref in seed_set: seed_set.add(unique);
  added = True\<close>. It visits every set (there is no \<^verbatim>\<open>break\<close>); the flag is threaded
  through. Every set is a fresh object, so adding to one never changes another.
\<close>

fun scan_sets :: "string \<Rightarrow> string \<Rightarrow> string set list \<Rightarrow> bool \<Rightarrow> string set list \<times> bool" where
  "scan_sets ref unique [] added = ([], added)"
| "scan_sets ref unique (s # ss) added =
     (if ref \<in> s
      then (case scan_sets ref unique ss True of (ss', a) \<Rightarrow> (insert unique s # ss', a))
      else (case scan_sets ref unique ss added of (ss', a) \<Rightarrow> (s # ss', a)))"

text \<open>The loop \<^verbatim>\<open>for response in responses[1:]\<close> that populates \<^verbatim>\<open>seed_sets\<close>.\<close>

fun populate :: "nat \<Rightarrow> nat \<Rightarrow> table \<Rightarrow> string set list \<Rightarrow> error + string set list" where
  "populate ri ui [] seed_sets = Inr seed_sets"
| "populate ri ui (response # rest) seed_sets =
     (case getitem response ri of Inl e \<Rightarrow> Inl e | Inr ref \<Rightarrow>
      (case getitem response ui of Inl e \<Rightarrow> Inl e | Inr unique \<Rightarrow>
       (if length unique \<noteq> 4 then populate ri ui rest seed_sets
        else (case scan_sets ref unique seed_sets False of (sets', added) \<Rightarrow>
          populate ri ui rest (if added then sets' else sets' @ [{ref, unique}])))))"

text \<open>
  The innermost query loop \<^verbatim>\<open>for response in responses[1:]: if response[ref_index] in
  seed_set: results.append(response)\<close>.
\<close>

fun collect_rows :: "nat \<Rightarrow> string set \<Rightarrow> table \<Rightarrow> table \<Rightarrow> error + table" where
  "collect_rows ri seed_set [] results = Inr results"
| "collect_rows ri seed_set (response # rest) results =
     (case getitem response ri of Inl e \<Rightarrow> Inl e | Inr ref \<Rightarrow>
       collect_rows ri seed_set rest (if ref \<in> seed_set then results @ [response] else results))"

text \<open>The \<^verbatim>\<open>seed == "*"\<close> branch: every set that has no main seed is collected.\<close>

fun star_loop :: "string list \<Rightarrow> nat \<Rightarrow> table \<Rightarrow> string set list \<Rightarrow> table \<Rightarrow> error + table" where
  "star_loop main_seeds ri rows [] results = Inr results"
| "star_loop main_seeds ri rows (seed_set # rest) results =
     (if seed_set \<inter> set main_seeds = {}
      then (case collect_rows ri seed_set rows results of Inl e \<Rightarrow> Inl e
            | Inr results' \<Rightarrow> star_loop main_seeds ri rows rest results')
      else star_loop main_seeds ri rows rest results)"

text \<open>The other branch: the first set that contains the seed is collected, then \<^verbatim>\<open>break\<close>.\<close>

fun seed_loop :: "string \<Rightarrow> nat \<Rightarrow> table \<Rightarrow> string set list \<Rightarrow> table \<Rightarrow> error + table" where
  "seed_loop seed ri rows [] results = Inr results"
| "seed_loop seed ri rows (seed_set # rest) results =
     (if seed \<in> seed_set then collect_rows ri seed_set rows results
      else seed_loop seed ri rows rest results)"

text \<open>The sets built from a table (the state of \<^verbatim>\<open>seed_sets\<close> when the first loop ends).\<close>

definition seed_sets_of :: "table \<Rightarrow> error + string set list" where
  "seed_sets_of responses =
     (case responses of [] \<Rightarrow> Inl IndexError | header # rows \<Rightarrow>
      (case index_of header ''ref'' of Inl e \<Rightarrow> Inl e | Inr ri \<Rightarrow>
       (case index_of header ''unique'' of Inl e \<Rightarrow> Inl e | Inr ui \<Rightarrow>
         populate ri ui rows [])))"

definition filter_rows_by_seed :: "string list \<Rightarrow> string \<Rightarrow> table \<Rightarrow> error + table" where
  "filter_rows_by_seed main_seeds seed responses =
     (case responses of [] \<Rightarrow> Inl IndexError | header # rows \<Rightarrow>
      (case index_of header ''ref'' of Inl e \<Rightarrow> Inl e | Inr ri \<Rightarrow>
       (case index_of header ''unique'' of Inl e \<Rightarrow> Inl e | Inr ui \<Rightarrow>
        (case populate ri ui rows [] of Inl e \<Rightarrow> Inl e | Inr seed_sets \<Rightarrow>
          (if seed = ''*'' then star_loop main_seeds ri rows seed_sets [header]
           else seed_loop seed ri rows seed_sets [header])))))"

text \<open>
  The sets whose rows a query returns, read off the guards of the two query loops: for
  \<^verbatim>\<open>"*"\<close> every set without a main seed, otherwise the first set that holds the seed.
\<close>

definition selected_sets :: "string list \<Rightarrow> string \<Rightarrow> string set list \<Rightarrow> string set list" where
  "selected_sets main_seeds seed seed_sets =
     (if seed = ''*'' then filter (\<lambda>S. S \<inter> set main_seeds = {}) seed_sets
      else (case find (\<lambda>S. seed \<in> S) seed_sets of None \<Rightarrow> [] | Some S \<Rightarrow> [S]))"

text \<open>The data rows whose \<^verbatim>\<open>ref\<close> cell lies in a set, in table order.\<close>

definition rows_with_ref :: "nat \<Rightarrow> table \<Rightarrow> string set \<Rightarrow> table" where
  "rows_with_ref ri rows S = filter (\<lambda>r. r ! ri \<in> S) rows"

text \<open>
  What one valid row does to \<^verbatim>\<open>seed_sets\<close>: \<^verbatim>\<open>unique\<close> goes into every set that holds
  \<^verbatim>\<open>ref\<close>; when there is none, the set \<^verbatim>\<open>{ref, unique}\<close> is appended.
\<close>

definition add_unique :: "string \<Rightarrow> string \<Rightarrow> string set list \<Rightarrow> string set list" where
  "add_unique ref unique seed_sets =
     (if \<exists>S\<in>set seed_sets. ref \<in> S
      then map (\<lambda>S. if ref \<in> S then insert unique S else S) seed_sets
      else seed_sets @ [{ref, unique}])"



section \<open>The structure catalog\<close>

text \<open>
  \<^verbatim>\<open>self.questions\<close> maps a question name to the tuple (qid, question text, type,
  mandatory, other); \<^verbatim>\<open>self.subquestions\<close> maps (qid, title) to (text, mandatory);
  \<^verbatim>\<open>self.answers\<close> maps a qid to a dictionary from answer code to answer text. The inner
  dictionary is an association list read with \<open>map_of\<close>; its \<^verbatim>\<open>keys()\<close> are the
  distinct first components. A key that is absent is a \<^verbatim>\<open>KeyError\<close>.
\<close>

record question =
  qid :: string
  question_text :: string
  qtype :: string
  mandatory :: bool
  other :: bool

record limeplot =
  questions :: "string \<rightharpoonup> question"
  subquestions :: "string \<times> string \<rightharpoonup> string \<times> bool"
  answers :: "string \<rightharpoonup> (string \<times> string) list"

definition lookup :: "('k \<rightharpoonup> 'v) \<Rightarrow> 'k \<Rightarrow> error + 'v" where
  "lookup d k = (case d k of None \<Rightarrow> Inl KeyError | Some v \<Rightarrow> Inr v)"

definition get_qid_from_qname :: "limeplot \<Rightarrow> string \<Rightarrow> error + string" where
  "get_qid_from_qname self qname =
     (case lookup (questions self) qname of Inl e \<Rightarrow> Inl e | Inr q \<Rightarrow> Inr (qid q))"

definition get_qtype_from_qname :: "limeplot \<Rightarrow> string \<Rightarrow> error + string" where
  "get_qtype_from_qname self qname =
     (case lookup (questions self) qname of Inl e \<Rightarrow> Inl e | Inr q \<Rightarrow> Inr (qtype q))"

definition is_qname_mandatory :: "limeplot \<Rightarrow> string \<Rightarrow> error + bool" where
  "is_qname_mandatory self qname =
     (case lookup (questions self) qname of Inl e \<Rightarrow> Inl e | Inr q \<Rightarrow> Inr (mandatory q))"

definition is_qname_other :: "limeplot \<Rightarrow> string \<Rightarrow> error + bool" where
  "is_qname_other self qname =
     (case lookup (questions self) qname of Inl e \<Rightarrow> Inl e | Inr q \<Rightarrow> Inr (other q))"

definition get_subqtext :: "limeplot \<Rightarrow> string \<Rightarrow> string \<Rightarrow> error + string" where
  "get_subqtext self q title =
     (case lookup (subquestions self) (q, title) of Inl e \<Rightarrow> Inl e | Inr sq \<Rightarrow> Inr (fst sq))"

text \<open>\<^verbatim>\<open>answers = self.answers[qid].keys(); answers.sort()\<close>: strings sort bytewise.\<close>

definition sorted_answer_codes :: "limeplot \<Rightarrow> string \<Rightarrow> error + string list" where
  "sorted_answer_codes self q =
     (case lookup (answers self) q of Inl e \<Rightarrow> Inl e
      | Inr d \<Rightarrow> Inr (sort (remdups (map fst d))))"

text \<open>A list comprehension whose element expression may raise: the first raise ends it.\<close>

fun map_err :: "('a \<Rightarrow> error + 'b) \<Rightarrow> 'a list \<Rightarrow> error + 'b list" where
  "map_err f [] = Inr []"
| "map_err f (x # xs) =
     (case f x of Inl e \<Rightarrow> Inl e | Inr y \<Rightarrow>
       (case map_err f xs of Inl e \<Rightarrow> Inl e | Inr ys \<Rightarrow> Inr (y # ys)))"

text \<open>\<^verbatim>\<open>s.split(" ")\<close>: cuts at every single space, keeping empty pieces.\<close>

fun split_on :: "char \<Rightarrow> string \<Rightarrow> string list" where
  "split_on c [] = [[]]"
| "split_on c (x # xs) =
     (if x = c then [] # split_on c xs
      else (case split_on c xs of [] \<Rightarrow> [[x]] | w # ws \<Rightarrow> (x # w) # ws))"

text \<open>\<^verbatim>\<open>s.strip(chars)\<close>, and the whitespace that \<^verbatim>\<open>s.strip()\<close> removes from a byte string.\<close>

definition strip_chars :: "char set \<Rightarrow> string \<Rightarrow> string" where
  "strip_chars cs s = rev (dropWhile (\<lambda>c. c \<in> cs) (rev (dropWhile (\<lambda>c. c \<in> cs) s)))"

definition whitespace :: "char set" where
  "whitespace = {CHR '' '', CHR 0x09, CHR 0x0A, CHR 0x0B, CHR 0x0C, CHR 0x0D}"

section \<open>ConvergenceAggregator\<close>

subsection \<open>Percentages\<close>

text \<open>
  Python floats are modelled by the reals: no property below depends on rounding.
  \<^verbatim>\<open>float(t)/total\<close> raises \<^verbatim>\<open>ZeroDivisionError\<close> when the divisor is zero.
\<close>

definition float_div :: "int \<Rightarrow> int \<Rightarrow> error + real" where
  "float_div t tot =
     (if tot = 0 then Inl ZeroDivisionError else Inr (real_of_int t / real_of_int tot))"

text \<open>
  \<^verbatim>\<open>percent = 0.0; try: percent = float(t)/total; except ZeroDivisionError: pass\<close>, the
  guarded share of the three convergence plots.
\<close>

definition guarded_percent :: "int \<Rightarrow> int \<Rightarrow> real" where
  "guarded_percent t tot = (case float_div t tot of Inl e \<Rightarrow> 0 | Inr p \<Rightarrow> p)"

text \<open>
  The loop \<^verbatim>\<open>for t in tally\<close> shared by the three convergence plots: the share of every
  tally is appended to the series at its index; a series that does not exist yet
  (\<^verbatim>\<open>IndexError\<close>) is started as \<^verbatim>\<open>[0.0, percent]\<close>.
\<close>

fun append_percents :: "int list \<Rightarrow> int \<Rightarrow> nat \<Rightarrow> real list list \<Rightarrow> real list list" where
  "append_percents [] tot index lines = lines"
| "append_percents (t # ts) tot index lines =
     append_percents ts tot (Suc index)
       (if index < length lines
        then lines[index := lines ! index @ [guarded_percent t tot]]
        else lines @ [[0, guarded_percent t tot]])"

subsection \<open>Single choice: \<^verbatim>\<open>plot_convergence_radio\<close>\<close>

text \<open>The answer domain: \<^verbatim>\<open>answers\<close> as it stands when the loop starts.\<close>

definition radio_answers :: "limeplot \<Rightarrow> string \<Rightarrow> error + string list" where
  "radio_answers self qname =
     (case get_qid_from_qname self qname of Inl e \<Rightarrow> Inl e | Inr q \<Rightarrow>
      (case get_qtype_from_qname self qname of Inl e \<Rightarrow> Inl e | Inr ty \<Rightarrow>
       (case (if ty = ''G'' then Inr [''M'', ''F''] else sorted_answer_codes self q) of
          Inl e \<Rightarrow> Inl e
        | Inr codes \<Rightarrow>
           (case is_qname_mandatory self qname of Inl e \<Rightarrow> Inl e | Inr m \<Rightarrow>
             (if \<not> m then Inr (codes @ [[]])
              else (case is_qname_other self qname of Inl e \<Rightarrow> Inl e
                    | Inr ot \<Rightarrow> Inr (if ot then codes @ [[]] else codes)))))))"

text \<open>The loop over the data rows; the state is \<^verbatim>\<open>(tally, lines)\<close>.\<close>

fun radio_loop :: "string list \<Rightarrow> table \<Rightarrow> int list \<times> real list list \<Rightarrow>
    error + int list \<times> real list list" where
  "radio_loop codes [] st = Inr st"
| "radio_loop codes (response # rest) (tally, lines) =
     (case getitem response 0 of Inl e \<Rightarrow> Inl e | Inr answer \<Rightarrow>
      (case index_of codes answer of Inl e \<Rightarrow> Inl e | Inr i \<Rightarrow>
       (case getitem tally i of Inl e \<Rightarrow> Inl e | Inr n \<Rightarrow>
         radio_loop codes rest
           (tally[i := n + 1],
            append_percents (tally[i := n + 1]) (sum_list (tally[i := n + 1])) 0 lines))))"

text \<open>One legend entry: the catalog text, or the fallback of the \<^verbatim>\<open>except KeyError\<close> branch.\<close>

definition radio_label :: "limeplot \<Rightarrow> string \<Rightarrow> row \<Rightarrow> string \<Rightarrow> error + string" where
  "radio_label self qname header answer =
     (case getitem header 0 of Inl e \<Rightarrow> Inl e | Inr h \<Rightarrow>
      (case get_qid_from_qname self h of Inl e \<Rightarrow> Inl e | Inr q \<Rightarrow>
       (case (case lookup (answers self) q of Inl e \<Rightarrow> Inl e
              | Inr d \<Rightarrow> lookup (map_of d) answer) of
          Inr atext \<Rightarrow> Inr atext
        | Inl e \<Rightarrow>
           (case get_qtype_from_qname self qname of Inl e' \<Rightarrow> Inl e' | Inr ty \<Rightarrow>
             Inr (if ty = ''G''
                  then (if answer = ''M'' then ''Male''
                        else if answer = ''F'' then ''Female'' else ''No answer'')
                  else ''No answer'')))))"

text \<open>The result is what is handed to the plot: the series and the legend.\<close>

definition plot_convergence_radio :: "limeplot \<Rightarrow> string \<Rightarrow> table \<Rightarrow>
    error + real list list \<times> string list" where
  "plot_convergence_radio self qname responses =
     (case responses of [] \<Rightarrow> Inl IndexError | header # rows \<Rightarrow>
      (case radio_answers self qname of Inl e \<Rightarrow> Inl e | Inr codes \<Rightarrow>
       (case radio_loop codes rows (replicate (length codes) 0, []) of Inl e \<Rightarrow> Inl e
        | Inr (tally, lines) \<Rightarrow>
           (case map_err (radio_label self qname header) codes of Inl e \<Rightarrow> Inl e
            | Inr legend \<Rightarrow> Inr (lines, legend)))))"

subsection \<open>Multiple choice: \<^verbatim>\<open>plot_convergence_checkbox\<close>\<close>

text \<open>
  \<^verbatim>\<open>_clean_integer\<close>. The builtin \<^verbatim>\<open>int\<close> is a parameter: \<open>py_int s\<close> is the value of
  \<^verbatim>\<open>int(s)\<close> for a cell \<open>s\<close>, and \<open>None\<close> where it raises \<^verbatim>\<open>ValueError\<close> (the only
  exception it raises on a string), as it does on a blank cell.
\<close>

definition clean_integer :: "(string \<Rightarrow> int option) \<Rightarrow> string \<Rightarrow> int" where
  "clean_integer py_int s = (case py_int s of Some n \<Rightarrow> n | None \<Rightarrow> 0)"

text \<open>
  The loop over the data rows; \<^verbatim>\<open>zip\<close> cuts the tally to the shorter of tally and row.
\<close>

fun checkbox_loop :: "(string \<Rightarrow> int option) \<Rightarrow> table \<Rightarrow> int list \<times> real list list \<Rightarrow>
    int list \<times> real list list" where
  "checkbox_loop py_int [] st = st"
| "checkbox_loop py_int (response # rest) (tally, lines) =
     (if sum_list (map (clean_integer py_int) response) = 0
      then checkbox_loop py_int rest (tally, lines)
      else checkbox_loop py_int rest
        (map2 (+) tally (map (clean_integer py_int) response),
         append_percents (map2 (+) tally (map (clean_integer py_int) response))
           (sum_list (map2 (+) tally (map (clean_integer py_int) response))) 0 lines))"

text \<open>The legend entry of a heading \<^verbatim>\<open>"qname [title]"\<close>: the text of the sub-question.\<close>

definition checkbox_label :: "limeplot \<Rightarrow> string \<Rightarrow> error + string" where
  "checkbox_label self heading =
     (case getitem (split_on CHR '' '' heading) 0 of Inl e \<Rightarrow> Inl e | Inr s0 \<Rightarrow>
      (case get_qid_from_qname self (strip_chars whitespace s0) of Inl e \<Rightarrow> Inl e | Inr q \<Rightarrow>
       (case getitem (split_on CHR '' '' heading) 1 of Inl e \<Rightarrow> Inl e | Inr s1 \<Rightarrow>
         get_subqtext self q (strip_chars {CHR ''['', CHR '']''} s1))))"

definition plot_convergence_checkbox :: "(string \<Rightarrow> int option) \<Rightarrow> limeplot \<Rightarrow> table \<Rightarrow>
    error + real list list \<times> string list" where
  "plot_convergence_checkbox py_int self responses =
     (case responses of [] \<Rightarrow> Inl IndexError | header # rows \<Rightarrow>
      (case checkbox_loop py_int rows (replicate (length header) 0, []) of (tally, lines) \<Rightarrow>
       (case map_err (checkbox_label self) header of Inl e \<Rightarrow> Inl e
        | Inr legend \<Rightarrow> Inr (lines, legend))))"

subsection \<open>Numbers: \<^verbatim>\<open>plot_convergence_numerical\<close>\<close>

definition bucket_size :: int where "bucket_size = 5"
definition arbitrary_min :: int where "arbitrary_min = 10"
definition arbitrary_max :: int where "arbitrary_max = 69"

text \<open>
  \<^verbatim>\<open>int(float(x[0]))\<close>. The conversion is a parameter: \<open>py_int_float s\<close> is the value
  of \<^verbatim>\<open>int(float(s))\<close> for a cell \<open>s\<close>, or the exception it raises.
\<close>

definition first_number :: "(string \<Rightarrow> error + int) \<Rightarrow> row \<Rightarrow> error + int" where
  "first_number py_int_float x =
     (case getitem x 0 of Inl e \<Rightarrow> Inl e | Inr s \<Rightarrow> py_int_float s)"

text \<open>\<^verbatim>\<open>max(xs)\<close>: \<^verbatim>\<open>ValueError\<close> on the empty list.\<close>

definition max_of :: "int list \<Rightarrow> error + int" where
  "max_of xs = (case xs of [] \<Rightarrow> Inl ValueError | y # ys \<Rightarrow> Inr (fold max ys y))"

text \<open>
  \<^verbatim>\<open>num_buckets = (max_response - arbitrary_min) / bucket_size + 1\<close>: the division of
  two integers rounds down, as \<open>div\<close> does.
\<close>

definition num_buckets_of :: "int \<Rightarrow> int" where
  "num_buckets_of max_response = (max_response - arbitrary_min) div bucket_size + 1"

text \<open>
  The loop over the data rows. In the branch that tallies, \<^verbatim>\<open>answer\<close> is at least
  \<^verbatim>\<open>arbitrary_min\<close>, so \<^verbatim>\<open>bucket_num\<close> is not negative and indexes from the front.
\<close>

fun numerical_loop :: "(string \<Rightarrow> error + int) \<Rightarrow> table \<Rightarrow> int list \<times> real list list \<Rightarrow>
    error + int list \<times> real list list" where
  "numerical_loop py_int_float [] st = Inr st"
| "numerical_loop py_int_float (response # rest) (tally, lines) =
     (case first_number py_int_float response of Inl e \<Rightarrow> Inl e | Inr answer \<Rightarrow>
       (if answer > arbitrary_max \<or> answer < arbitrary_min
        then numerical_loop py_int_float rest (tally, lines)
        else (case getitem tally (nat ((answer - arbitrary_min) div bucket_size)) of
                Inl e \<Rightarrow> Inl e
              | Inr n \<Rightarrow>
                 numerical_loop py_int_float rest
                   (tally[nat ((answer - arbitrary_min) div bucket_size) := n + 1],
                    append_percents
                      (tally[nat ((answer - arbitrary_min) div bucket_size) := n + 1])
                      (sum_list (tally[nat ((answer - arbitrary_min) div bucket_size) := n + 1]))
                      0 lines))))"

text \<open>\<^verbatim>\<open>range(a, b, s)\<close> for a positive step.\<close>

definition range_step :: "int \<Rightarrow> int \<Rightarrow> int \<Rightarrow> int list" where
  "range_step a b s = map (\<lambda>k. a + int k * s) [0..<nat ((b - a + s - 1) div s)]"

text \<open>
  The state \<^verbatim>\<open>(tally, lines)\<close> when the loop of \<^verbatim>\<open>plot_convergence_numerical\<close> ends.
\<close>

definition numerical_state :: "(string \<Rightarrow> error + int) \<Rightarrow> table \<Rightarrow>
    error + int list \<times> real list list" where
  "numerical_state py_int_float responses =
     (case responses of [] \<Rightarrow> Inl IndexError | header # rows \<Rightarrow>
      (case map_err (first_number py_int_float) rows of Inl e \<Rightarrow> Inl e | Inr values \<Rightarrow>
       (case max_of values of Inl e \<Rightarrow> Inl e | Inr max_response \<Rightarrow>
         numerical_loop py_int_float rows
           (replicate (nat (num_buckets_of (min max_response arbitrary_max))) 0, []))))"

text \<open>
  The result is the series and the legend; a legend entry \<^verbatim>\<open>"%d to %d" % (x, x+4)\<close> is
  kept as the pair of its two numbers.
\<close>

definition plot_convergence_numerical :: "(string \<Rightarrow> error + int) \<Rightarrow> table \<Rightarrow>
    error + real list list \<times> (int \<times> int) list" where
  "plot_convergence_numerical py_int_float responses =
     (case responses of [] \<Rightarrow> Inl IndexError | header # rows \<Rightarrow>
      (case map_err (first_number py_int_float) rows of Inl e \<Rightarrow> Inl e | Inr values \<Rightarrow>
       (case max_of values of Inl e \<Rightarrow> Inl e | Inr max_response \<Rightarrow>
        (case numerical_loop py_int_float rows
                (replicate (nat (num_buckets_of (min max_response arbitrary_max))) 0, []) of
           Inl e \<Rightarrow> Inl e
         | Inr (tally, lines) \<Rightarrow>
            Inr (lines,
                 map (\<lambda>x. (x, x + bucket_size - 1))
                   (range_step arbitrary_min (min max_response arbitrary_max) bucket_size))))))"

subsection \<open>Arrays: \<^verbatim>\<open>plot_array_boxes\<close>\<close>

text \<open>
  The loop \<^verbatim>\<open>for index in range(len(header))\<close> over one row:
  \<^verbatim>\<open>tally[index][answers.index(response[index])] += 1\<close>. Every column has its own tally
  list, so an update changes one column only.
\<close>

fun tally_row :: "string list \<Rightarrow> row \<Rightarrow> nat list \<Rightarrow> int list list \<Rightarrow> error + int list list" where
  "tally_row codes response [] tally = Inr tally"
| "tally_row codes response (index # rest) tally =
     (case getitem response index of Inl e \<Rightarrow> Inl e | Inr answer \<Rightarrow>
      (case getitem tally index of Inl e \<Rightarrow> Inl e | Inr t \<Rightarrow>
       (case index_of codes answer of Inl e \<Rightarrow> Inl e | Inr a \<Rightarrow>
        (case getitem t a of Inl e \<Rightarrow> Inl e | Inr n \<Rightarrow>
          tally_row codes response rest (tally[index := t[a := n + 1]])))))"

text \<open>The loop over the data rows: a row with as many blank cells as the header has columns is skipped.\<close>

fun array_loop :: "string list \<Rightarrow> nat \<Rightarrow> table \<Rightarrow> int list list \<Rightarrow> error + int list list" where
  "array_loop codes n [] tally = Inr tally"
| "array_loop codes n (response # rest) tally =
     (if count_list response [] = n then array_loop codes n rest tally
      else (case tally_row codes response [0..<n] tally of Inl e \<Rightarrow> Inl e
            | Inr tally' \<Rightarrow> array_loop codes n rest tally'))"

text \<open>
  One entry of \<^verbatim>\<open>tallypct\<close>: \<^verbatim>\<open>float(x)/total*100\<close> for every count of a column, with no
  guard on the division. The value is kept as a number; its rendering by \<^verbatim>\<open>"%.1f"\<close> is
  not modelled.
\<close>

definition column_percentages :: "int list \<Rightarrow> error + real list" where
  "column_percentages t =
     map_err (\<lambda>x. case float_div x (sum_list t) of Inl e \<Rightarrow> Inl e | Inr p \<Rightarrow> Inr (p * 100)) t"

definition array_label :: "limeplot \<Rightarrow> string \<Rightarrow> string \<Rightarrow> error + string" where
  "array_label self q heading =
     (case getitem (split_on CHR '' '' heading) 1 of Inl e \<Rightarrow> Inl e
      | Inr s1 \<Rightarrow> get_subqtext self q (strip_chars {CHR ''['', CHR '']''} s1))"

text \<open>
  The result is what is printed: the answer texts of the first line, then for every heading
  its sub-question text with its percentages.
\<close>

definition plot_array_boxes :: "limeplot \<Rightarrow> string \<Rightarrow> table \<Rightarrow>
    error + string list \<times> (string \<times> real list) list" where
  "plot_array_boxes self qname responses =
     (case responses of [] \<Rightarrow> Inl IndexError | header # rows \<Rightarrow>
      (case get_qid_from_qname self qname of Inl e \<Rightarrow> Inl e | Inr q \<Rightarrow>
       (case sorted_answer_codes self q of Inl e \<Rightarrow> Inl e | Inr codes \<Rightarrow>
        (case array_loop codes (length header) rows
                (replicate (length header) (replicate (length codes) 0)) of
           Inl e \<Rightarrow> Inl e
         | Inr tally \<Rightarrow>
            (case map_err column_percentages tally of Inl e \<Rightarrow> Inl e | Inr tallypct \<Rightarrow>
             (case map_err (\<lambda>a. case lookup (answers self) q of Inl e \<Rightarrow> Inl e
                                 | Inr d \<Rightarrow> lookup (map_of d) a) codes of
                Inl e \<Rightarrow> Inl e
              | Inr texts \<Rightarrow>
                 (case map_err (array_label self q) header of Inl e \<Rightarrow> Inl e
                  | Inr labels \<Rightarrow> Inr (texts, zip labels tallypct))))))))"

subsection \<open>Predicates used in the statements\<close>

text \<open>
  The shape of \<^verbatim>\<open>lines\<close> after \<open>k\<close> rows have been tallied over \<open>m\<close> tallies: empty
  before the first row, afterwards \<open>m\<close> series of \<open>k + 1\<close> values each, the first
  of them 0.
\<close>

definition series_grown :: "nat \<Rightarrow> nat \<Rightarrow> real list list \<Rightarrow> bool" where
  "series_grown m k lines =
     (if k = 0 then lines = []
      else length lines = m \<and> (\<forall>l\<in>set lines. length l = Suc k \<and> hd l = 0))"

text \<open>A value that is tallied into bucket \<open>b\<close>: within floor and ceiling, and in the b-th range of 5.\<close>

definition in_bucket :: "nat \<Rightarrow> int \<Rightarrow> bool" where
  "in_bucket b v = (10 \<le> v \<and> v \<le> 69 \<and> (v - 10) div 5 = int b)"

subsection \<open>Sample data for the evaluations\<close>

text \<open>
  A sample of the two integer conversions: on a string of decimal digits both give its
  value; every other cell, the blank one among them, is a \<^verbatim>\<open>ValueError\<close> here.
\<close>

definition decimal :: "string \<Rightarrow> int option" where
  "decimal s =
     (if s = [] \<or> (\<exists>c\<in>set s. c \<notin> set ''0123456789'') then None
      else Some (foldl (\<lambda>n c. 10 * n + (int (of_char c) - 48)) 0 s))"

definition decimal_cell :: "string \<Rightarrow> error + int" where
  "decimal_cell s = (case decimal s of None \<Rightarrow> Inl ValueError | Some n \<Rightarrow> Inr n)"

text \<open>
  A sample catalog with the question \<^verbatim>\<open>tools\<close> (qid 20), its sub-questions SQ001 and
  SQ002, and the answer codes A1 and A2.
\<close>

definition tools_survey :: limeplot where
  "tools_survey =
     \<lparr>questions = [''tools'' \<mapsto> \<lparr>qid = ''20'', question_text = ''Which tools?'',
                                 qtype = ''F'', mandatory = False, other = False\<rparr>],
      subquestions = [(''20'', ''SQ001'') \<mapsto> (''Paid VPN'', False),
                      (''20'', ''SQ002'') \<mapsto> (''Tor'', False)],
      answers = [''20'' \<mapsto> [(''A1'', ''Often''), (''A2'', ''Never'')]]\<rparr>"

text \<open>
  A sample catalog: the single-choice, mandatory question \<^verbatim>\<open>city\<close> (qid 10) with the
  answer codes A1 "North" and A2 "South".
\<close>

definition city_survey :: limeplot where
  "city_survey =
     \<lparr>questions = [''city'' \<mapsto> \<lparr>qid = ''10'', question_text = ''Where do you live?'',
                                qtype = ''L'', mandatory = True, other = False\<rparr>],
      subquestions = Map.empty,
      answers = [''10'' \<mapsto> [(''A2'', ''South''), (''A1'', ''North'')]]\<rparr>"

section \<open>Properties of SeedGrouper\<close>

lemma getitem_Inr: "getitem xs i = Inr x \<longleftrightarrow> i < length xs \<and> x = xs ! i"
  by (auto simp: getitem_def)

lemma getitem_Inl: "getitem xs i = Inl e \<longleftrightarrow> \<not> i < length xs \<and> e = IndexError"
  by (auto simp: getitem_def)

lemma scan_sets_eq:
  "scan_sets ref unique sets added =
     (map (\<lambda>S. if ref \<in> S then insert unique S else S) sets, added \<or> (\<exists>S\<in>set sets. ref \<in> S))"
  by (induction sets arbitrary: added) auto

lemma populate_wide:
  "populate ri ui rows sets = Inr sets' \<Longrightarrow> r \<in> set rows \<Longrightarrow> ri < length r \<and> ui < length r"
  by (induction rows arbitrary: sets)
     (auto simp: getitem_Inr scan_sets_eq split: sum.splits if_splits)

lemma collect_rows_eq:
  "\<forall>r\<in>set rows. ri < length r \<Longrightarrow>
     collect_rows ri S rows results = Inr (results @ rows_with_ref ri rows S)"
  by (induction rows arbitrary: results) (auto simp: getitem_def rows_with_ref_def)

lemma star_loop_eq:
  "\<forall>r\<in>set rows. ri < length r \<Longrightarrow>
     star_loop ms ri rows sets results =
       Inr (results @ concat (map (rows_with_ref ri rows) (filter (\<lambda>S. S \<inter> set ms = {}) sets)))"
  by (induction sets arbitrary: results) (auto simp: collect_rows_eq)

lemma seed_loop_eq:
  "\<forall>r\<in>set rows. ri < length r \<Longrightarrow>
     seed_loop seed ri rows sets results =
       Inr (results @ concat (map (rows_with_ref ri rows)
              (case find (\<lambda>S. seed \<in> S) sets of None \<Rightarrow> [] | Some S \<Rightarrow> [S])))"
  by (induction sets arbitrary: results) (auto simp: collect_rows_eq)

lemma filter_rows_by_seed_eq:
  assumes "index_of header ''ref'' = Inr ri" "index_of header ''unique'' = Inr ui"
    "populate ri ui rows [] = Inr sets"
  shows "filter_rows_by_seed ms seed (header # rows) =
     Inr (header # concat (map (rows_with_ref ri rows) (selected_sets ms seed sets)))"
proof -
  have w: "\<forall>r\<in>set rows. ri < length r" using populate_wide[OF assms(3)] by blast
  show ?thesis using assms
    by (simp add: filter_rows_by_seed_def selected_sets_def star_loop_eq[OF w] seed_loop_eq[OF w])
qed

lemma map_no_match:
  "\<forall>S\<in>set sets. ref \<notin> S \<Longrightarrow> map (\<lambda>S. if ref \<in> S then insert unique S else S) sets = sets"
  by (induction sets) auto

lemma populate_valid_row:
  "ri < length r \<Longrightarrow> ui < length r \<Longrightarrow> length (r ! ui) = 4 \<Longrightarrow>
     populate ri ui (r # rest) sets = populate ri ui rest (add_unique (r ! ri) (r ! ui) sets)"
  by (auto simp: getitem_def scan_sets_eq add_unique_def map_no_match)

lemma add_unique_keeps:
  "\<exists>S\<in>set sets. a \<in> S \<and> b \<in> S \<Longrightarrow> \<exists>S\<in>set (add_unique ref unique sets). a \<in> S \<and> b \<in> S"
  by (auto simp: add_unique_def)

lemma add_unique_has:
  "\<exists>S\<in>set (add_unique ref unique sets). ref \<in> S \<and> unique \<in> S"
  by (auto simp: add_unique_def)

lemma populate_keeps:
  "populate ri ui rows sets = Inr sets' \<Longrightarrow> \<exists>S\<in>set sets. a \<in> S \<and> b \<in> S \<Longrightarrow>
     \<exists>S\<in>set sets'. a \<in> S \<and> b \<in> S"
proof (induction rows arbitrary: sets)
  case Nil then show ?case by simp
next
  case (Cons r rows)
  have w: "ri < length r" "ui < length r"
    using populate_wide[OF Cons.prems(1), of r] by simp_all
  show ?case
  proof (cases "length (r ! ui) = 4")
    case False
    with Cons w show ?thesis by (auto simp: getitem_def)
  next
    case True
    from Cons.prems(1) have p: "populate ri ui rows (add_unique (r ! ri) (r ! ui) sets) = Inr sets'"
      unfolding populate_valid_row[OF w True] .
    from Cons.IH[OF p add_unique_keeps[OF Cons.prems(2)]] show ?thesis .
  qed
qed

lemma populate_covers:
  "populate ri ui rows sets = Inr sets' \<Longrightarrow> r \<in> set rows \<Longrightarrow> length (r ! ui) = 4 \<Longrightarrow>
     \<exists>S\<in>set sets'. r ! ri \<in> S \<and> r ! ui \<in> S"
proof (induction rows arbitrary: sets)
  case Nil then show ?case by simp
next
  case (Cons x rows)
  have w: "ri < length x" "ui < length x"
    using populate_wide[OF Cons.prems(1), of x] by simp_all
  show ?case
  proof (cases "r = x")
    case True
    from Cons.prems(3) True have l: "length (x ! ui) = 4" by simp
    from Cons.prems(1) have "populate ri ui rows (add_unique (x ! ri) (x ! ui) sets) = Inr sets'"
      unfolding populate_valid_row[OF w l] .
    with True have p: "populate ri ui rows (add_unique (r ! ri) (r ! ui) sets) = Inr sets'"
      by simp
    from populate_keeps[OF p add_unique_has] show ?thesis .
  next
    case False
    with Cons.prems(2) have m: "r \<in> set rows" by simp
    show ?thesis
    proof (cases "length (x ! ui) = 4")
      case True
      from Cons.prems(1) have p: "populate ri ui rows (add_unique (x ! ri) (x ! ui) sets) = Inr sets'"
        unfolding populate_valid_row[OF w True] .
      from Cons.IH[OF p m Cons.prems(3)] show ?thesis .
    next
      case False
      with Cons.prems(1) w have p: "populate ri ui rows sets = Inr sets'"
        by (simp add: getitem_def)
      from Cons.IH[OF p m Cons.prems(3)] show ?thesis .
    qed
  qed
qed

lemma populate_skip:
  "ri < length r \<Longrightarrow> ui < length r \<Longrightarrow> length (r ! ui) \<noteq> 4 \<Longrightarrow>
     populate ri ui (xs @ r # ys) sets = populate ri ui (xs @ ys) sets"
  by (induction xs arbitrary: sets) (auto simp: getitem_def scan_sets_eq split: sum.splits)

section \<open>Claims about SeedGrouper\<close>

text \<open>
  Claim C1, as the code has it. A row whose \<^verbatim>\<open>unique\<close> has exactly 4 characters adds
  \<^verbatim>\<open>unique\<close> to every existing set that contains its \<^verbatim>\<open>ref\<close> (not only to the first one)
  and leaves the other sets as they are; when no set contains \<^verbatim>\<open>ref\<close>, the new set
  \<^verbatim>\<open>{ref, unique}\<close> is appended.
\<close>

theorem populate_adds_to_every_matching_set:
  assumes "getitem response ri = Inr ref" and "getitem response ui = Inr unique"
    and "length unique = 4"
  shows "populate ri ui (response # rest) seed_sets =
     populate ri ui rest
       (if \<exists>S\<in>set seed_sets. ref \<in> S
        then map (\<lambda>S. if ref \<in> S then insert unique S else S) seed_sets
        else seed_sets @ [{ref, unique}])"
proof -
  from assms have w: "ri < length response" "ui < length response"
    and v: "response ! ri = ref" "response ! ui = unique"
    by (simp_all add: getitem_Inr)
  from assms(3) v have l: "length (response ! ui) = 4" by simp
  show ?thesis
    unfolding populate_valid_row[OF w l] v add_unique_def ..
qed

text \<open>Witness for C1: the step at a row whose \<^verbatim>\<open>ref\<close> lies in two of three sets.\<close>

theorem populate_adds_to_every_matching_set_witness:
  "getitem [''aaaa'', ''dddd''] 0 = Inr ''aaaa'' \<and> getitem [''aaaa'', ''dddd''] 1 = Inr ''dddd''
   \<and> length ''dddd'' = 4
   \<and> populate 0 1 [[''aaaa'', ''dddd'']] [{''aaaa'', ''bbbb''}, {''cccc'', ''aaaa''}, {''eeee''}] =
       Inr [{''aaaa'', ''bbbb'', ''dddd''}, {''cccc'', ''aaaa'', ''dddd''}, {''eeee''}]"
  using populate_adds_to_every_matching_set[of "[''aaaa'', ''dddd'']" 0 "''aaaa''" 1 "''dddd''" "[]"
      "[{''aaaa'', ''bbbb''}, {''cccc'', ''aaaa''}, {''eeee''}]"]
  by (simp add: getitem_def insert_commute)

text \<open>
  Counterexample to C1 as stated: after two rows both sets hold \<^verbatim>\<open>aaaa\<close>; the third row has
  \<^verbatim>\<open>ref = aaaa\<close> and its \<^verbatim>\<open>unique\<close> is added to both, not to the first only.
\<close>

theorem first_match_only_counterexample:
  "seed_sets_of [[''ref'', ''unique''], [''aaaa'', ''bbbb''], [''cccc'', ''aaaa'']] =
     Inr [{''aaaa'', ''bbbb''}, {''cccc'', ''aaaa''}]
   \<and> seed_sets_of [[''ref'', ''unique''], [''aaaa'', ''bbbb''], [''cccc'', ''aaaa''], [''aaaa'', ''dddd'']] =
     Inr [{''dddd'', ''aaaa'', ''bbbb''}, {''dddd'', ''cccc'', ''aaaa''}]
   \<and> seed_sets_of [[''ref'', ''unique''], [''aaaa'', ''bbbb''], [''cccc'', ''aaaa''], [''aaaa'', ''dddd'']] \<noteq>
     Inr [{''dddd'', ''aaaa'', ''bbbb''}, {''cccc'', ''aaaa''}]"
proof -
  have "''dddd'' \<in> {''dddd'', ''cccc'', ''aaaa''}" and "''dddd'' \<notin> {''cccc'', ''aaaa''}"
    by simp_all
  then have "{''dddd'', ''cccc'', ''aaaa''} \<noteq> {''cccc'', ''aaaa''}" by metis
  then show ?thesis
    by (simp add: seed_sets_of_def getitem_def)
qed

text \<open>
  Claim C2, as the code has it. Every data row whose \<^verbatim>\<open>unique\<close> has length 4 has its
  \<^verbatim>\<open>ref\<close> and its \<^verbatim>\<open>unique\<close> together in at least one produced set (the sets need not be
  disjoint, so "exactly one" is not promised).
\<close>

theorem seed_sets_cover_valid_rows:
  assumes "index_of header ''ref'' = Inr ri" and "index_of header ''unique'' = Inr ui"
    and "seed_sets_of (header # rows) = Inr seed_sets"
    and "r \<in> set rows" and "length (r ! ui) = 4"
  shows "\<exists>S\<in>set seed_sets. r ! ri \<in> S \<and> r ! ui \<in> S"
proof -
  from assms(1-3) have "populate ri ui rows [] = Inr seed_sets"
    by (simp add: seed_sets_of_def)
  from populate_covers[OF this assms(4,5)] show ?thesis .
qed

text \<open>Witness for C2: coverage at the second row of a two-row table.\<close>

theorem seed_sets_cover_valid_rows_witness:
  "index_of [''ref'', ''unique''] ''ref'' = Inr 0 \<and> index_of [''ref'', ''unique''] ''unique'' = Inr 1
   \<and> seed_sets_of [[''ref'', ''unique''], [''aaaa'', ''bbbb''], [''cccc'', ''aaaa'']] =
       Inr [{''aaaa'', ''bbbb''}, {''cccc'', ''aaaa''}]
   \<and> [''cccc'', ''aaaa''] \<in> set [[''aaaa'', ''bbbb''], [''cccc'', ''aaaa'']]
   \<and> length ([''cccc'', ''aaaa''] ! 1) = 4
   \<and> (\<exists>S\<in>set [{''aaaa'', ''bbbb''}, {''cccc'', ''aaaa''}].
         [''cccc'', ''aaaa''] ! 0 \<in> S \<and> [''cccc'', ''aaaa''] ! 1 \<in> S)"
  using seed_sets_cover_valid_rows[of "[''ref'', ''unique'']" 0 1
      "[[''aaaa'', ''bbbb''], [''cccc'', ''aaaa'']]" "[{''aaaa'', ''bbbb''}, {''cccc'', ''aaaa''}]"
      "[''cccc'', ''aaaa'']"]
  by (simp add: seed_sets_of_def getitem_def insert_commute)

text \<open>
  Counterexample to C2 as stated: the two sets produced for this table share \<^verbatim>\<open>aaaa\<close>, the
  \<^verbatim>\<open>unique\<close> of the second row, which so lies in two sets.
\<close>

theorem seed_sets_disjoint_counterexample:
  "seed_sets_of [[''ref'', ''unique''], [''aaaa'', ''bbbb''], [''cccc'', ''aaaa'']] =
     Inr [{''aaaa'', ''bbbb''}, {''cccc'', ''aaaa''}]
   \<and> {''aaaa'', ''bbbb''} \<inter> {''cccc'', ''aaaa''} \<noteq> {}
   \<and> ''aaaa'' \<in> {''aaaa'', ''bbbb''} \<and> ''aaaa'' \<in> {''cccc'', ''aaaa''}"
  by (simp add: seed_sets_of_def getitem_def insert_commute)

text \<open>
  Claim C4, as the code has it. In the end-to-end scenario the third row has the
  5-character \<^verbatim>\<open>unique\<close> value \<^verbatim>\<open>seed1\<close>, so it takes no part in the grouping: the one set
  built is \<^verbatim>\<open>{seed1, aaaa, bbbb}\<close>. Its \<^verbatim>\<open>ref\<close> is \<^verbatim>\<open>*\<close>, which is not in that set, so
  \<^verbatim>\<open>filter_rows_by_seed\<close> for \<^verbatim>\<open>seed1\<close> returns the header and the first two data rows only.
\<close>

theorem scenario_seed1_two_rows:
  "seed_sets_of [[''city'', ''ref'', ''unique''], [''A1'', ''seed1'', ''aaaa''],
       [''A2'', ''seed1'', ''bbbb''], [''A1'', ''*'', ''seed1'']] =
     Inr [{''bbbb'', ''seed1'', ''aaaa''}]
   \<and> filter_rows_by_seed [''seed1''] ''seed1''
       [[''city'', ''ref'', ''unique''], [''A1'', ''seed1'', ''aaaa''],
        [''A2'', ''seed1'', ''bbbb''], [''A1'', ''*'', ''seed1'']] =
     Inr [[''city'', ''ref'', ''unique''], [''A1'', ''seed1'', ''aaaa''],
          [''A2'', ''seed1'', ''bbbb'']]"
  by (simp add: seed_sets_of_def filter_rows_by_seed_def getitem_def)

text \<open>Counterexample to C4 as stated: the query does not return all three data rows.\<close>

theorem scenario_three_rows_counterexample:
  "filter_rows_by_seed [''seed1''] ''seed1''
       [[''city'', ''ref'', ''unique''], [''A1'', ''seed1'', ''aaaa''],
        [''A2'', ''seed1'', ''bbbb''], [''A1'', ''*'', ''seed1'']] \<noteq>
     Inr [[''city'', ''ref'', ''unique''], [''A1'', ''seed1'', ''aaaa''],
          [''A2'', ''seed1'', ''bbbb''], [''A1'', ''*'', ''seed1'']]"
  by (simp add: filter_rows_by_seed_def getitem_def)

text \<open>
  Claim C6, as the code has it. The query for \<^verbatim>\<open>*\<close> returns the header followed by, for each
  candidate set without a main seed, taken in creation order, the data rows whose \<^verbatim>\<open>ref\<close>
  lies in that set, in table order within the set. Rows are grouped set by set, and a row
  whose \<^verbatim>\<open>ref\<close> lies in several such sets is returned once for each.
\<close>

theorem star_rows_grouped_by_set:
  assumes "index_of header ''ref'' = Inr ri"
    and "seed_sets_of (header # rows) = Inr seed_sets"
  shows "filter_rows_by_seed main_seeds ''*'' (header # rows) =
     Inr (header # concat (map (\<lambda>S. filter (\<lambda>r. r ! ri \<in> S) rows)
                            (filter (\<lambda>S. S \<inter> set main_seeds = {}) seed_sets)))"
proof -
  from assms obtain ui where u: "index_of header ''unique'' = Inr ui"
    and p: "populate ri ui rows [] = Inr seed_sets"
    by (auto simp: seed_sets_of_def split: sum.splits)
  have "rows_with_ref ri rows = (\<lambda>S. filter (\<lambda>r. r ! ri \<in> S) rows)"
    by (rule ext) (simp add: rows_with_ref_def)
  with filter_rows_by_seed_eq[OF assms(1) u p, of main_seeds "''*''"] show ?thesis
    by (simp add: selected_sets_def)
qed

text \<open>Witness for C6: the \<^verbatim>\<open>*\<close> query on a table with one main-seed set and one other set.\<close>

theorem star_rows_grouped_by_set_witness:
  "index_of [''ref'', ''unique''] ''ref'' = Inr 0
   \<and> seed_sets_of [[''ref'', ''unique''], [''aaaa'', ''bbbb''], [''cccc'', ''dddd''], [''aaaa'', ''eeee'']] =
       Inr [{''eeee'', ''aaaa'', ''bbbb''}, {''cccc'', ''dddd''}]
   \<and> filter_rows_by_seed [''cccc''] ''*''
         [[''ref'', ''unique''], [''aaaa'', ''bbbb''], [''cccc'', ''dddd''], [''aaaa'', ''eeee'']] =
       Inr [[''ref'', ''unique''], [''aaaa'', ''bbbb''], [''aaaa'', ''eeee'']]"
  using star_rows_grouped_by_set[of "[''ref'', ''unique'']" 0
      "[[''aaaa'', ''bbbb''], [''cccc'', ''dddd''], [''aaaa'', ''eeee'']]"
      "[{''eeee'', ''aaaa'', ''bbbb''}, {''cccc'', ''dddd''}]" "[''cccc'']"]
  by (simp add: seed_sets_of_def getitem_def)

text \<open>
  Counterexample to C6 as stated: in the first table the third row is returned before the second
  (not table order); in the second table the first row is returned twice.
\<close>

theorem star_rows_order_counterexample:
  "filter_rows_by_seed [''*''] ''*''
       [[''ref'', ''unique''], [''aaaa'', ''bbbb''], [''cccc'', ''dddd''], [''aaaa'', ''eeee'']] =
     Inr [[''ref'', ''unique''], [''aaaa'', ''bbbb''], [''aaaa'', ''eeee''], [''cccc'', ''dddd'']]
   \<and> filter_rows_by_seed [''*''] ''*''
       [[''ref'', ''unique''], [''aaaa'', ''bbbb''], [''cccc'', ''aaaa'']] =
     Inr [[''ref'', ''unique''], [''aaaa'', ''bbbb''], [''aaaa'', ''bbbb''], [''cccc'', ''aaaa'']]"
  by (simp add: filter_rows_by_seed_def getitem_def)

text \<open>
  Claim C10. A row whose \<^verbatim>\<open>unique\<close> does not have exactly 4 characters takes no part in set
  construction (the sets are those of the table without it), and a query still returns it
  whenever its \<^verbatim>\<open>ref\<close> lies in a selected candidate set.
\<close>

theorem malformed_unique_row:
  assumes "index_of header ''ref'' = Inr ri" and "index_of header ''unique'' = Inr ui"
    and "populate ri ui (xs @ r # ys) [] = Inr seed_sets"
    and "length (r ! ui) \<noteq> 4"
    and "S \<in> set (selected_sets main_seeds seed seed_sets)" and "r ! ri \<in> S"
  shows "populate ri ui (xs @ ys) [] = Inr seed_sets
     \<and> (\<exists>res. filter_rows_by_seed main_seeds seed (header # xs @ r # ys) = Inr res \<and> r \<in> set res)"
proof -
  have w: "ri < length r" "ui < length r"
    using populate_wide[OF assms(3), of r] by simp_all
  have a: "populate ri ui (xs @ ys) [] = Inr seed_sets"
    using assms(3) populate_skip[OF w assms(4), of xs ys "[]"] by simp
  have "r \<in> set (rows_with_ref ri (xs @ r # ys) S)"
    using assms(6) by (simp add: rows_with_ref_def)
  with assms(5) have "r \<in> set (concat (map (rows_with_ref ri (xs @ r # ys))
                                   (selected_sets main_seeds seed seed_sets)))"
    by auto
  with filter_rows_by_seed_eq[OF assms(1,2,3), of main_seeds seed] a show ?thesis by simp
qed

text \<open>Witness for C10: a table whose second row has a 2-character \<^verbatim>\<open>unique\<close>.\<close>

theorem malformed_unique_row_witness:
  "index_of [''city'', ''ref'', ''unique''] ''ref'' = Inr 1
   \<and> index_of [''city'', ''ref'', ''unique''] ''unique'' = Inr 2
   \<and> populate 1 2 ([[''A1'', ''seed1'', ''aaaa'']] @ [''A2'', ''aaaa'', ''xx''] # []) [] =
       Inr [{''seed1'', ''aaaa''}]
   \<and> length ([''A2'', ''aaaa'', ''xx''] ! 2) \<noteq> 4
   \<and> {''seed1'', ''aaaa''} \<in> set (selected_sets [''seed1''] ''seed1'' [{''seed1'', ''aaaa''}])
   \<and> [''A2'', ''aaaa'', ''xx''] ! 1 \<in> {''seed1'', ''aaaa''}
   \<and> populate 1 2 ([[''A1'', ''seed1'', ''aaaa'']] @ []) [] = Inr [{''seed1'', ''aaaa''}]
   \<and> filter_rows_by_seed [''seed1''] ''seed1''
        ([''city'', ''ref'', ''unique''] # [[''A1'', ''seed1'', ''aaaa'']] @ [''A2'', ''aaaa'', ''xx''] # []) =
       Inr [[''city'', ''ref'', ''unique''], [''A1'', ''seed1'', ''aaaa''], [''A2'', ''aaaa'', ''xx'']]"
  using malformed_unique_row[of "[''city'', ''ref'', ''unique'']" 1 2 "[[''A1'', ''seed1'', ''aaaa'']]"
      "[''A2'', ''aaaa'', ''xx'']" "[]" "[{''seed1'', ''aaaa''}]" "{''seed1'', ''aaaa''}"
      "[''seed1'']" "''seed1''"]
  by (simp add: selected_sets_def filter_rows_by_seed_def getitem_def)

section \<open>Properties of the convergence plots\<close>

lemma append_percents_fresh:
  "append_percents ts tot (length lines) lines = lines @ map (\<lambda>t. [0, guarded_percent t tot]) ts"
proof (induction ts arbitrary: lines)
  case Nil
  then show ?case by simp
next
  case (Cons t ts)
  from Cons.IH[of "lines @ [[0, guarded_percent t tot]]"] show ?case by simp
qed

lemma append_percents_nth:
  "i + length ts \<le> length lines \<Longrightarrow>
     length (append_percents ts tot i lines) = length lines \<and>
     (\<forall>j<length lines. append_percents ts tot i lines ! j =
        (if i \<le> j \<and> j < i + length ts
         then lines ! j @ [guarded_percent (ts ! (j - i)) tot] else lines ! j))"
proof (induction ts arbitrary: i lines)
  case Nil
  then show ?case by simp
next
  case (Cons t ts)
  let ?l = "lines[i := lines ! i @ [guarded_percent t tot]]"
  from Cons.prems have i: "i < length lines" and b: "Suc i + length ts \<le> length ?l" by simp_all
  show ?case
  proof (intro conjI allI impI)
    show "length (append_percents (t # ts) tot i lines) = length lines"
      using Cons.IH[OF b] i by simp
  next
    fix j assume "j < length lines"
    with Cons.IH[OF b] i
    show "append_percents (t # ts) tot i lines ! j =
        (if i \<le> j \<and> j < i + length (t # ts)
         then lines ! j @ [guarded_percent ((t # ts) ! (j - i)) tot] else lines ! j)"
      by (cases "j = i") (auto simp: nth_list_update nth_Cons' Suc_diff_le)
  qed
qed

lemma append_percents_grown:
  assumes "series_grown (length tally) k lines"
  shows "series_grown (length tally) (Suc k) (append_percents tally tot 0 lines)"
proof (cases "k = 0")
  case True
  with assms have "lines = []" by (simp add: series_grown_def)
  with True append_percents_fresh[of tally tot "[]"] show ?thesis
    by (simp add: series_grown_def)
next
  case False
  with assms have l: "length lines = length tally"
    and a: "\<forall>l\<in>set lines. length l = Suc k \<and> hd l = 0"
    by (simp_all add: series_grown_def)
  from l have le: "0 + length tally \<le> length lines" by simp
  from a l have n: "\<forall>j<length tally. length (lines ! j) = Suc k \<and> hd (lines ! j) = 0" by simp
  have "length (append_percents tally tot 0 lines ! j) = Suc (Suc k)
      \<and> hd (append_percents tally tot 0 lines ! j) = 0" if j: "j < length tally" for j
  proof -
    from append_percents_nth[OF le, of tot] j l
    have e: "append_percents tally tot 0 lines ! j = lines ! j @ [guarded_percent (tally ! j) tot]"
      by simp
    from n j have "lines ! j \<noteq> []" by auto
    with e n j show ?thesis by simp
  qed
  with append_percents_nth[OF le, of tot] l show ?thesis
    by (auto simp: series_grown_def in_set_conv_nth)
qed

lemma radio_loop_grown:
  "radio_loop codes rows (tally, lines) = Inr (tally', lines') \<Longrightarrow>
     series_grown (length tally) k lines \<Longrightarrow>
     length tally' = length tally \<and> series_grown (length tally) (k + length rows) lines'"
proof (induction rows arbitrary: tally lines k)
  case Nil
  then show ?case by simp
next
  case (Cons r rows)
  from Cons.prems(1) obtain i n where
    p: "radio_loop codes rows (tally[i := n + 1],
          append_percents (tally[i := n + 1]) (sum_list (tally[i := n + 1])) 0 lines) = Inr (tally', lines')"
    by (auto split: sum.splits)
  have "series_grown (length (tally[i := n + 1])) (Suc k)
          (append_percents (tally[i := n + 1]) (sum_list (tally[i := n + 1])) 0 lines)"
    using append_percents_grown[of "tally[i := n + 1]" k lines] Cons.prems(2) by simp
  from Cons.IH[OF p this] show ?case by simp
qed

lemma map_err_length: "map_err f xs = Inr ys \<Longrightarrow> length ys = length xs"
  by (induction xs arbitrary: ys) (auto split: sum.splits)

lemma index_of_Inr: "index_of xs x = Inr i \<Longrightarrow> i < length xs \<and> xs ! i = x"
  by (induction xs arbitrary: i) (auto split: if_splits sum.splits)

lemma index_of_Inl: "index_of xs x = Inl e \<longleftrightarrow> x \<notin> set xs \<and> e = ValueError"
  by (induction xs) (auto split: sum.splits)

lemma radio_loop_tally_length:
  "radio_loop codes rows (tally, lines) = Inr (tally', lines') \<Longrightarrow> length tally' = length tally"
  by (induction rows arbitrary: tally lines) (auto split: sum.splits)

lemma radio_loop_outside:
  "r \<in> set rows \<Longrightarrow> r \<noteq> [] \<Longrightarrow> hd r \<notin> set codes \<Longrightarrow> length tally = length codes \<Longrightarrow>
     (radio_loop codes rows (tally, lines) = Inl ValueError \<or>
      radio_loop codes rows (tally, lines) = Inl IndexError) \<and>
     ((\<forall>x\<in>set rows. x \<noteq> []) \<longrightarrow> radio_loop codes rows (tally, lines) = Inl ValueError)"
proof (induction rows arbitrary: tally lines)
  case Nil
  then show ?case by simp
next
  case (Cons x rows)
  show ?case
  proof (cases "x = []")
    case True
    with Cons.prems show ?thesis by (simp add: getitem_def)
  next
    case False
    then have g: "getitem x 0 = Inr (hd x)" by (cases x) (simp_all add: getitem_def)
    show ?thesis
    proof (cases "hd x \<in> set codes")
      case False
      then have "index_of codes (hd x) = Inl ValueError" by (simp add: index_of_Inl)
      with g show ?thesis by simp
    next
      case True
      then obtain i where i: "index_of codes (hd x) = Inr i"
        by (cases "index_of codes (hd x)") (auto simp: index_of_Inl)
      with index_of_Inr[OF i] Cons.prems(4) have t: "getitem tally i = Inr (tally ! i)"
        by (simp add: getitem_def)
      from True Cons.prems have m: "r \<in> set rows" by auto
      have "length (tally[i := tally ! i + 1]) = length codes" using Cons.prems(4) by simp
      from Cons.IH[OF m Cons.prems(2,3) this] g i t \<open>x \<noteq> []\<close> show ?thesis by simp
    qed
  qed
qed

text \<open>Conversely, rows whose answers all lie in the domain are tallied without a raise.\<close>

lemma radio_loop_inside:
  "\<forall>r\<in>set rows. r \<noteq> [] \<and> hd r \<in> set codes \<Longrightarrow> length tally = length codes \<Longrightarrow>
     \<exists>st. radio_loop codes rows (tally, lines) = Inr st"
proof (induction rows arbitrary: tally lines)
  case Nil
  then show ?case by simp
next
  case (Cons x rows)
  from Cons.prems(1) have x: "x \<noteq> []" "hd x \<in> set codes" by simp_all
  then have g: "getitem x 0 = Inr (hd x)" by (cases x) (simp_all add: getitem_def)
  from x obtain i where i: "index_of codes (hd x) = Inr i"
    by (cases "index_of codes (hd x)") (auto simp: index_of_Inl)
  with index_of_Inr[OF i] Cons.prems(2) have t: "getitem tally i = Inr (tally ! i)"
    by (simp add: getitem_def)
  have "length (tally[i := tally ! i + 1]) = length codes" using Cons.prems(2) by simp
  from Cons.IH[OF _ this] Cons.prems(1) g i t show ?case by simp
qed

lemma city_answers: "radio_answers city_survey ''city'' = Inr [''A1'', ''A2'']"
  by (simp add: radio_answers_def city_survey_def get_qid_from_qname_def get_qtype_from_qname_def
      is_qname_mandatory_def is_qname_other_def sorted_answer_codes_def lookup_def)

lemma city_legend:
  "radio_label city_survey ''city'' [''city''] ''A1'' = Inr ''North''"
  "radio_label city_survey ''city'' [''city''] ''A2'' = Inr ''South''"
  by (simp_all add: radio_label_def city_survey_def get_qid_from_qname_def get_qtype_from_qname_def
      lookup_def getitem_def)

section \<open>Claims about the single-choice plot\<close>

text \<open>
  Claim C5, as the code has it. When the single-choice plot succeeds on n data rows, n at
  least 1, the answer domain is not empty, there is one series and one legend entry per
  answer code of the domain, and every series has length n + 1 and starts with 0.0 (the
  first row starts each series as \<^verbatim>\<open>[0.0, percent]\<close>).
\<close>

theorem radio_series_length:
  assumes "plot_convergence_radio self qname (header # rows) = Inr (lines, legend)"
    and "rows \<noteq> []"
  shows "\<exists>codes. radio_answers self qname = Inr codes \<and> codes \<noteq> []
     \<and> length lines = length codes \<and> length legend = length codes
     \<and> (\<forall>l\<in>set lines. length l = length rows + 1 \<and> hd l = 0)"
proof -
  from assms(1) obtain codes tally where
    c: "radio_answers self qname = Inr codes"
    and l: "radio_loop codes rows (replicate (length codes) 0, []) = Inr (tally, lines)"
    and g: "map_err (radio_label self qname header) codes = Inr legend"
    by (auto simp: plot_convergence_radio_def split: sum.splits)
  have "series_grown (length (replicate (length codes) (0::int))) 0 []"
    by (simp add: series_grown_def)
  from radio_loop_grown[OF l this] assms(2)
  have "length lines = length codes"
    and "\<forall>l\<in>set lines. length l = Suc (length rows) \<and> hd l = 0"
    by (simp_all add: series_grown_def)
  moreover from assms(2) l have "codes \<noteq> []"
    by (cases rows) (auto split: sum.splits)
  ultimately show ?thesis using c map_err_length[OF g] by simp
qed

text \<open>
  Witness for C5: three rows of the sample catalog give two series, one per answer code,
  of four values each, both starting with 0.
\<close>

theorem radio_series_length_witness:
  "plot_convergence_radio city_survey ''city'' ([''city''] # [[''A1''], [''A2''], [''A1'']]) =
     Inr ([[0, 1, 1 / 2, 2 / 3], [0, 0, 1 / 2, 1 / 3]], [''North'', ''South''])
   \<and> [[''A1''], [''A2''], [''A1'']] \<noteq> []
   \<and> radio_answers city_survey ''city'' = Inr [''A1'', ''A2'']
   \<and> length [[0, 1, 1 / 2, 2 / 3], [0, 0, 1 / 2, 1 / 3 :: real]] = length [''A1'', ''A2'']
   \<and> length [''North'', ''South''] = length [''A1'', ''A2'']
   \<and> map length [[0, 1, 1 / 2, 2 / 3], [0, 0, 1 / 2, 1 / 3 :: real]] =
       [length [[''A1''], [''A2''], [''A1'']] + 1, length [[''A1''], [''A2''], [''A1'']] + 1]
   \<and> map hd [[0, 1, 1 / 2, 2 / 3], [0, 0, 1 / 2, 1 / 3 :: real]] = [0, 0]"
  using radio_series_length[of city_survey "''city''" "[''city'']" "[[''A1''], [''A2''], [''A1'']]"
      "[[0, 1, 1 / 2, 2 / 3], [0, 0, 1 / 2, 1 / 3]]" "[''North'', ''South'']"]
  by (simp add: plot_convergence_radio_def city_answers city_legend getitem_def
      guarded_percent_def float_div_def)

text \<open>
  Counterexample to C5 as stated: after one row each series has two values, not one.
\<close>

theorem radio_series_length_counterexample:
  "plot_convergence_radio city_survey ''city'' [[''city''], [''A1'']] =
     Inr ([[0, 1], [0, 0]], [''North'', ''South''])
   \<and> plot_convergence_radio city_survey ''city'' [[''city''], [''A1'']] \<noteq>
     Inr ([[1], [0]], [''North'', ''South''])"
  by (simp add: plot_convergence_radio_def city_answers city_legend getitem_def
      guarded_percent_def float_div_def)

text \<open>
  Claim C9. The answer domain of the single-choice plot is the sorted catalog codes, or
  M and F for the gender type, followed by the empty string when the question is optional
  or has a write-in option. A table with a data row whose answer is outside that domain makes
  the plot fail: with \<^verbatim>\<open>ValueError\<close> from \<^verbatim>\<open>answers.index\<close>, or with \<^verbatim>\<open>IndexError\<close> when an
  earlier row has no cell at all.
\<close>

theorem radio_value_outside_domain_fails:
  assumes "questions self qname = Some q"
    and "qtype q = ''G'' \<or> answers self (qid q) = Some d"
    and "domain = (if qtype q = ''G'' then [''M'', ''F''] else sort (remdups (map fst d)))
                  @ (if \<not> mandatory q \<or> other q then [[]] else [])"
    and "r \<in> set rows" and "r \<noteq> []" and "hd r \<notin> set domain"
  shows "radio_answers self qname = Inr domain
     \<and> (plot_convergence_radio self qname (header # rows) = Inl ValueError
        \<or> plot_convergence_radio self qname (header # rows) = Inl IndexError)
     \<and> ((\<forall>x\<in>set rows. x \<noteq> []) \<longrightarrow>
          plot_convergence_radio self qname (header # rows) = Inl ValueError)"
proof -
  have c: "radio_answers self qname = Inr domain"
    using assms(1,2,3)
    by (auto simp: radio_answers_def get_qid_from_qname_def get_qtype_from_qname_def
        is_qname_mandatory_def is_qname_other_def sorted_answer_codes_def lookup_def)
  have "length (replicate (length domain) (0::int)) = length domain" by simp
  from radio_loop_outside[OF assms(4,5,6) this, of "[]"] c show ?thesis
    by (auto simp: plot_convergence_radio_def)
qed

text \<open>Witness for C9, on the sample catalog: a blank answer to a mandatory question.\<close>

theorem radio_value_outside_domain_fails_witness:
  "questions city_survey ''city'' = Some \<lparr>qid = ''10'', question_text = ''Where do you live?'',
                                qtype = ''L'', mandatory = True, other = False\<rparr>
   \<and> answers city_survey ''10'' = Some [(''A2'', ''South''), (''A1'', ''North'')]
   \<and> [''A1'', ''A2''] = sort (remdups (map fst [(''A2'', ''South''), (''A1'', ''North'')]))
   \<and> [[]] \<in> set [[''A1''], [[]], [''A2'']] \<and> hd [[]] \<notin> set [''A1'', ''A2'']
   \<and> radio_answers city_survey ''city'' = Inr [''A1'', ''A2'']
   \<and> plot_convergence_radio city_survey ''city'' ([''city''] # [[''A1''], [[]], [''A2'']]) =
       Inl ValueError"
  using radio_value_outside_domain_fails[of city_survey "''city''"
      "\<lparr>qid = ''10'', question_text = ''Where do you live?'',
        qtype = ''L'', mandatory = True, other = False\<rparr>"
      "[(''A2'', ''South''), (''A1'', ''North'')]" "[''A1'', ''A2'']" "[[]]"
      "[[''A1''], [[]], [''A2'']]" "[''city'']"]
  by (simp add: city_survey_def)

section \<open>Properties of the multiple-choice plot\<close>

lemma all_zero_sum:
  "\<forall>s\<in>set z. clean_integer py_int s = 0 \<Longrightarrow> sum_list (map (clean_integer py_int) z) = 0"
  by (induction z) auto

lemma clean_integer_blank: "py_int [] = None \<Longrightarrow> clean_integer py_int [] = 0"
  by (simp add: clean_integer_def)

lemma checkbox_loop_skip:
  "sum_list (map (clean_integer py_int) z) = 0 \<Longrightarrow>
     checkbox_loop py_int (xs @ z # ys) st = checkbox_loop py_int (xs @ ys) st"
  by (induction xs arbitrary: st) (auto split: prod.splits)

text \<open>
  Claim C8. In the multiple-choice plot a row whose cells all clean to 0 (a blank cell
  cleans to 0) changes nothing wherever it is inserted: the state of the loop, so every
  tally and every series, and the output are those of the table without the row.
\<close>

theorem checkbox_all_zero_row_ignored:
  assumes "\<forall>s\<in>set z. clean_integer py_int s = 0"
  shows "checkbox_loop py_int (xs @ z # ys) (tally, lines) =
           checkbox_loop py_int (xs @ ys) (tally, lines)
     \<and> plot_convergence_checkbox py_int self (header # xs @ z # ys) =
           plot_convergence_checkbox py_int self (header # xs @ ys)"
  using checkbox_loop_skip[OF all_zero_sum[OF assms]]
  by (simp add: plot_convergence_checkbox_def)

text \<open>Witness for C8: a row of a blank and a 0 between two answered rows.\<close>

theorem checkbox_all_zero_row_ignored_witness:
  "clean_integer decimal [] = 0 \<and> clean_integer decimal ''0'' = 0
   \<and> plot_convergence_checkbox decimal tools_survey
        ([''tools [SQ001]'', ''tools [SQ002]''] # [[''1'', ''0'']] @ [[], ''0''] # [[''1'', ''1'']]) =
       Inr ([[0, 1, 2 / 3], [0, 0, 1 / 3]], [''Paid VPN'', ''Tor''])
   \<and> plot_convergence_checkbox decimal tools_survey
        ([''tools [SQ001]'', ''tools [SQ002]''] # [[''1'', ''0'']] @ [[''1'', ''1'']]) =
       Inr ([[0, 1, 2 / 3], [0, 0, 1 / 3]], [''Paid VPN'', ''Tor''])"
  using checkbox_all_zero_row_ignored[of "[[], ''0'']" decimal "[[''1'', ''0'']]" "[[''1'', ''1'']]"
      "[0, 0]" "[]" tools_survey "[''tools [SQ001]'', ''tools [SQ002]'']"]
  by (simp add: plot_convergence_checkbox_def clean_integer_def decimal_def guarded_percent_def
      float_div_def checkbox_label_def get_qid_from_qname_def get_subqtext_def lookup_def
      tools_survey_def getitem_def strip_chars_def whitespace_def)

section \<open>Properties of the numeric plot\<close>

lemma max_of_Max:
  assumes "vals \<noteq> []"
  shows "max_of vals = Inr (Max (set vals))"
proof (cases vals)
  case Nil
  with assms show ?thesis by simp
next
  case (Cons y ys)
  have "fold max ys y = Max (set (y # ys))" by (rule Max.set_eq_fold[symmetric])
  with Cons show ?thesis by (simp add: max_of_def)
qed

lemma map_err_Cons:
  "map_err f (x # xs) = Inr ys \<Longrightarrow> \<exists>v vs. f x = Inr v \<and> map_err f xs = Inr vs \<and> ys = v # vs"
  by (auto split: sum.splits)

lemma sum_list_bump:
  "k < length (xs :: int list) \<Longrightarrow> sum_list (xs[k := xs ! k + 1]) = sum_list xs + 1"
  by (induction xs arbitrary: k) (auto split: nat.splits)

lemma numerical_loop_counts:
  assumes "map_err (first_number f) rows = Inr vals"
    and "\<forall>v\<in>set vals. 10 \<le> v \<and> v \<le> 69 \<longrightarrow> nat ((v - 10) div 5) < length tally"
  shows "\<exists>tally' lines'. numerical_loop f rows (tally, lines) = Inr (tally', lines')
     \<and> length tally' = length tally
     \<and> (\<forall>b<length tally. tally' ! b = tally ! b + int (length (filter (in_bucket b) vals)))
     \<and> sum_list tally' = sum_list tally + int (length (filter (\<lambda>v. 10 \<le> v \<and> v \<le> 69) vals))"
  using assms
proof (induction rows arbitrary: vals tally lines)
  case Nil
  then show ?case by simp
next
  case (Cons r rows)
  from map_err_Cons[OF Cons.prems(1)] obtain v vs where
    v: "first_number f r = Inr v" and vs: "map_err (first_number f) rows = Inr vs"
    and e: "vals = v # vs" by blast
  show ?case
  proof (cases "10 \<le> v \<and> v \<le> 69")
    case False
    from Cons.prems(2) e
    have h: "\<forall>v\<in>set vs. 10 \<le> v \<and> v \<le> 69 \<longrightarrow> nat ((v - 10) div 5) < length tally" by simp
    from Cons.IH[OF vs h, of lines] False v e show ?thesis
      by (auto simp: arbitrary_max_def arbitrary_min_def in_bucket_def)
  next
    case True
    let ?k = "nat ((v - 10) div 5)"
    let ?t = "tally[?k := tally ! ?k + 1]"
    from True Cons.prems(2) e have k: "?k < length tally" by simp
    from Cons.prems(2) e
    have h: "\<forall>v\<in>set vs. 10 \<le> v \<and> v \<le> 69 \<longrightarrow> nat ((v - 10) div 5) < length ?t" by simp
    from Cons.IH[OF vs h, of "append_percents ?t (sum_list ?t) 0 lines"]
    obtain tally' lines' where
      l: "numerical_loop f rows (?t, append_percents ?t (sum_list ?t) 0 lines) = Inr (tally', lines')"
      and n: "length tally' = length tally"
      and c: "\<forall>b<length tally. tally' ! b = ?t ! b + int (length (filter (in_bucket b) vs))"
      and s: "sum_list tally' = sum_list ?t + int (length (filter (\<lambda>v. 10 \<le> v \<and> v \<le> 69) vs))"
      by auto
    have step: "numerical_loop f (r # rows) (tally, lines) = Inr (tally', lines')"
      using v True k l
      by (simp add: arbitrary_max_def arbitrary_min_def bucket_size_def getitem_def)
    have pos: "0 \<le> (v - 10) div 5"
      using True pos_imp_zdiv_nonneg_iff[of 5 "v - 10"] by simp
    have cnt: "\<forall>b<length tally. tally' ! b = tally ! b + int (length (filter (in_bucket b) vals))"
    proof (intro allI impI)
      fix b assume b: "b < length tally"
      have "in_bucket b v \<longleftrightarrow> b = ?k" using True pos by (auto simp: in_bucket_def)
      with c b e show "tally' ! b = tally ! b + int (length (filter (in_bucket b) vals))"
        by (auto simp: nth_list_update)
    qed
    have "sum_list tally' = sum_list tally + int (length (filter (\<lambda>v. 10 \<le> v \<and> v \<le> 69) vals))"
      using s True e sum_list_bump[OF k] by simp
    with step n cnt show ?thesis by blast
  qed
qed

lemma sum_list_zeros: "sum_list (replicate n (0::int)) = 0"
  by (induction n) simp_all

lemma bucket_in_range:
  assumes "v \<in> set vals" and "10 \<le> v" and "v \<le> 69"
  shows "nat ((v - 10) div 5) < nat ((min (Max (set vals)) 69 - 10) div 5 + 1)"
proof -
  from assms(1) have "v \<le> Max (set vals)" by simp
  with assms(3) have "v - 10 \<le> min (Max (set vals)) 69 - 10" by simp
  then have "(v - 10) div 5 \<le> (min (Max (set vals)) 69 - 10) div 5"
    by (rule zdiv_mono1) simp
  moreover have "0 \<le> (v - 10) div 5"
    using assms(2) pos_imp_zdiv_nonneg_iff[of 5 "v - 10"] by simp
  ultimately show ?thesis by simp
qed

lemma numerical_loop_skip:
  assumes "first_number py_int_float r = Inr v" and "v < 10 \<or> 69 < v"
  shows "numerical_loop py_int_float (r # rest) (tally, lines) =
     numerical_loop py_int_float rest (tally, lines)"
  using assms by (auto simp: arbitrary_min_def arbitrary_max_def)

text \<open>
  Claim C7. With bucket width 5, floor 10 and ceiling 69, on a table whose cells all
  convert the run ends with one tally per bucket, and bucket \<open>b\<close> counts exactly the values
  between 10 and 69 whose range of 5 is the b-th. The tallies add up to the number of values
  between 10 and 69, so a 70 and a 9 are tallied nowhere. When a 69 occurs there are 12
  buckets and the 69 is counted in the last one, number 11.
\<close>

theorem numeric_bucket_boundaries:
  assumes "map_err (first_number py_int_float) rows = Inr vals" and "rows \<noteq> []"
  shows "\<exists>tally lines. numerical_state py_int_float (header # rows) = Inr (tally, lines)
     \<and> length tally = nat ((min (Max (set vals)) 69 - 10) div 5 + 1)
     \<and> (\<forall>b<length tally. tally ! b =
          int (length (filter (\<lambda>v. 10 \<le> v \<and> v \<le> 69 \<and> (v - 10) div 5 = int b) vals)))
     \<and> sum_list tally = int (length (filter (\<lambda>v. 10 \<le> v \<and> v \<le> 69) vals))
     \<and> (69 \<in> set vals \<longrightarrow> length tally = 12 \<and> 0 < tally ! 11)"
proof -
  let ?n = "nat ((min (Max (set vals)) 69 - 10) div 5 + 1)"
  from assms have ne: "vals \<noteq> []" by (cases rows) (auto split: sum.splits)
  have pre: "\<forall>v\<in>set vals. 10 \<le> v \<and> v \<le> 69 \<longrightarrow> nat ((v - 10) div 5) < length (replicate ?n (0::int))"
    using bucket_in_range[of _ vals] by simp
  have z: "sum_list (replicate ?n (0::int)) = 0" by (rule sum_list_zeros)
  from numerical_loop_counts[OF assms(1) pre, of "[]"] obtain tally lines where
    l: "numerical_loop py_int_float rows (replicate ?n 0, []) = Inr (tally, lines)"
    and n: "length tally = ?n"
    and c: "\<forall>b<?n. tally ! b = int (length (filter (in_bucket b) vals))"
    and s: "sum_list tally = int (length (filter (\<lambda>v. 10 \<le> v \<and> v \<le> 69) vals))"
    using z by auto
  have st: "numerical_state py_int_float (header # rows) = Inr (tally, lines)"
    using assms(1) l max_of_Max[OF ne]
    by (simp add: numerical_state_def num_buckets_of_def arbitrary_min_def arbitrary_max_def
        bucket_size_def)
  have ib: "in_bucket = (\<lambda>b v. 10 \<le> v \<and> v \<le> 69 \<and> (v - 10) div 5 = int b)"
    by (intro ext) (simp add: in_bucket_def)
  have last: "length tally = 12 \<and> 0 < tally ! 11" if m: "69 \<in> set vals"
  proof -
    from m have "69 \<le> Max (set vals)" by simp
    then have "min (Max (set vals)) 69 = 69" by simp
    with n have n12: "length tally = 12" by simp
    have "in_bucket 11 69" by (simp add: in_bucket_def)
    with m have "69 \<in> set (filter (in_bucket 11) vals)" by simp
    then have "0 < length (filter (in_bucket 11) vals)" by (rule length_pos_if_in_set)
    with c n n12 show ?thesis by simp
  qed
  from st n c s last show ?thesis unfolding ib by auto
qed

text \<open>Witness for C7: the values 69, 70, 9 and 12.\<close>

theorem numeric_bucket_boundaries_witness:
  "map_err (first_number decimal_cell) [[''69''], [''70''], [''9''], [''12'']] = Inr [69, 70, 9, 12]
   \<and> [[''69''], [''70''], [''9''], [''12'']] \<noteq> []
   \<and> (case numerical_state decimal_cell ([''age''] # [[''69''], [''70''], [''9''], [''12'']]) of
         Inl e \<Rightarrow> False
       | Inr (tally, lines) \<Rightarrow>
           length tally = 12 \<and> tally ! 0 = 1 \<and> tally ! 11 = 1 \<and> sum_list tally = 2
           \<and> lines ! 0 = [0, 0, 1 / 2] \<and> lines ! 11 = [0, 1, 1 / 2])"
  using numeric_bucket_boundaries[of decimal_cell "[[''69''], [''70''], [''9''], [''12'']]"
      "[69, 70, 9, 12]" "[''age'']"]
  by (simp add: numerical_state_def first_number_def getitem_def decimal_cell_def decimal_def
      max_of_def num_buckets_of_def arbitrary_min_def arbitrary_max_def bucket_size_def
      guarded_percent_def float_div_def eval_nat_numeral)

section \<open>Division by zero\<close>

lemma guarded_percent_zero: "guarded_percent t 0 = 0"
  by (simp add: guarded_percent_def float_div_def)

lemma float_div_zero: "float_div t 0 = Inl ZeroDivisionError"
  by (simp add: float_div_def)

text \<open>
  Claim C3 fails on the array plot. Its share \<^verbatim>\<open>float(x)/total*100\<close> has no guard, so a
  column whose total is zero raises \<^verbatim>\<open>ZeroDivisionError\<close>: here on a table with the header
  only, and on a table whose only data row is blank. The three convergence plots guard the
  same division and give 0.0 (lemma \<open>guarded_percent_zero\<close>).
\<close>

theorem array_zero_total_raises:
  "plot_array_boxes tools_survey ''tools'' [[''tools [SQ001]'']] = Inl ZeroDivisionError
   \<and> plot_array_boxes tools_survey ''tools'' [[''tools [SQ001]''], [[]]] = Inl ZeroDivisionError"
  by (simp add: plot_array_boxes_def get_qid_from_qname_def tools_survey_def lookup_def
      sorted_answer_codes_def column_percentages_def float_div_def)

end
